theory Spec2Isabelle
  imports Complex_Main
begin

section \<open>Data model\<close>

text \<open>
  Shallow embedding of \<^verbatim>\<open>max_random_baseline.py\<close>.  Python floats are idealised as
  \<^typ>\<open>real\<close>, Python integers are \<^typ>\<open>int\<close>, and the classifier count \<open>t\<close> is a
  \<^typ>\<open>nat\<close>, so that \<^verbatim>\<open>np.power(x, t)\<close> is \<open>x ^ t\<close> (in particular \<open>x ^ 0 = 1\<close>, also
  for \<open>x = 0\<close>, as numpy has it).  Every raise of the source is a value of \<open>error\<close>.
  Where the source floors the result of double arithmetic (in \<open>p_value\<close>), the rounding
  of that arithmetic is part of the model, since it decides which branch is taken.
\<close>

datatype error =
  AssertionError | SystemExit | ZeroDivisionError | OverflowError | ModelError

text \<open>
  The argument \<^verbatim>\<open>arg\<close> as \<^verbatim>\<open>_convert_arg_to_ps\<close> dispatches on it: a float, a dict
  (an association list in iteration order, keys \<^verbatim>\<open>num_labels\<close>, values
  \<^verbatim>\<open>num_examples\<close>), a list, or a value of any other type.
\<close>

datatype arg =
    Scalar real
  | Mapping "(int \<times> int) list"
  | Sequence "real list"
  | Unrecognized

text \<open>
  The class \<^verbatim>\<open>PoiBin\<close> is imported from \<^verbatim>\<open>max_random_baseline.poibin.poibin\<close> and is
  not part of the sources at hand.  Its two methods used here are the fields of a record;
  either may raise, which is the value \<open>Inl\<close>.  The constructor \<^verbatim>\<open>PoiBin(ps)\<close> is a
  parameter of \<open>init\<close> below.
\<close>

record poibin =
  pb_cdf :: "int \<Rightarrow> error + real"
  pb_pmf :: "int \<Rightarrow> error + real"

text \<open>The instance state of \<^verbatim>\<open>MaxOrderStatisticPoissonBinomial\<close>: \<^verbatim>\<open>self.n\<close>, \<^verbatim>\<open>self._pb\<close>.\<close>

record engine =
  self_n :: int
  self_pb :: poibin


section \<open>The probability-vector builder\<close>

text \<open>
  The comprehension of the dict branch,
  \<^verbatim>\<open>[p for num_labels, num_examples in arg.items() for p in [1/num_labels] * num_examples]\<close>.
  \<^verbatim>\<open>1/num_labels\<close> raises \<^verbatim>\<open>ZeroDivisionError\<close> for the key \<open>0\<close>; a list times a
  negative integer is the empty list, which is \<open>replicate (nat num_examples)\<close>.
\<close>

fun mapping_ps :: "(int \<times> int) list \<Rightarrow> error + real list" where
  "mapping_ps [] = Inr []"
| "mapping_ps ((num_labels, num_examples) # rest) =
     (if num_labels = 0 then Inl ZeroDivisionError
      else (case mapping_ps rest of
              Inl err \<Rightarrow> Inl err
            | Inr ps \<Rightarrow> Inr (replicate (nat num_examples) (1 / of_int num_labels) @ ps)))"

definition convert_arg_to_ps :: "int \<Rightarrow> arg \<Rightarrow> error + real list" where
  "convert_arg_to_ps n a =
     (case a of
        Scalar p \<Rightarrow> Inr (replicate (nat n) p)
      | Mapping m \<Rightarrow>
          (case mapping_ps m of
             Inl err \<Rightarrow> Inl err
           | Inr ps \<Rightarrow> if int (length ps) = n then Inr ps else Inl AssertionError)
      | Sequence xs \<Rightarrow> Inr xs
      | Unrecognized \<Rightarrow> Inl SystemExit)"

text \<open>\<^verbatim>\<open>__init__\<close>, with the constructor of the model as the parameter \<open>PoiBin\<close>.\<close>

definition init :: "(real list \<Rightarrow> error + poibin) \<Rightarrow> int \<Rightarrow> arg \<Rightarrow> error + engine" where
  "init PoiBin n a =
     (case convert_arg_to_ps n a of
        Inl err \<Rightarrow> Inl err
      | Inr ps \<Rightarrow>
          (case PoiBin ps of
             Inl err \<Rightarrow> Inl err
           | Inr pb \<Rightarrow> Inr \<lparr>self_n = n, self_pb = pb\<rparr>))"


section \<open>Double arithmetic\<close>

text \<open>
  Rounding to the nearest double, ties to even: 53 significant bits, and below \<open>2^-1022\<close>
  the fixed spacing \<open>2^-1074\<close> of the subnormal numbers.
\<close>

definition round_half_even :: "real \<Rightarrow> int" where
  "round_half_even q =
     (let f = \<lfloor>q\<rfloor>; d = q - of_int f in
      if d < 1/2 then f
      else if 1/2 < d then f + 1
      else if even f then f else f + 1)"

definition round_double :: "real \<Rightarrow> real" where
  "round_double x =
     (if x = 0 then 0
      else (let e = max \<lfloor>log 2 \<bar>x\<bar>\<rfloor> (- 1022);
                ulp = 2 powi (e - 52)
            in of_int (round_half_even (x / ulp)) * ulp))"

text \<open>
  A result of magnitude \<open>2^1024\<close> or more is no finite double.  In \<open>p_value\<close> every such
  result ends in \<^verbatim>\<open>OverflowError\<close>: the conversion of an int that large raises it, and a
  product that overflows is an infinity, which \<^verbatim>\<open>math.floor\<close> refuses with it.
\<close>

definition to_double :: "real \<Rightarrow> error + real" where
  "to_double x =
     (let r = round_double x in
      if 2 ^ 1024 \<le> \<bar>r\<bar> then Inl OverflowError else Inr r)"


section \<open>The max-order-statistic engine\<close>

definition pmf :: "engine \<Rightarrow> real \<Rightarrow> nat \<Rightarrow> error + real" where
  "pmf self k t =
     (let k' = \<lfloor>k\<rfloor> in
      case pb_cdf (self_pb self) k' of
        Inl err \<Rightarrow> Inl err
      | Inr F_k \<Rightarrow>
          (case pb_pmf (self_pb self) k' of
             Inl err \<Rightarrow> Inl err
           | Inr f_k \<Rightarrow> Inr (F_k ^ t - (F_k - f_k) ^ t)))"

definition F :: "engine \<Rightarrow> real \<Rightarrow> nat \<Rightarrow> error + real" where
  "F self k t =
     (let k' = \<lfloor>k\<rfloor> in
      if k' < 0 then Inr 0
      else (case pb_cdf (self_pb self) k' of
              Inl err \<Rightarrow> Inl err
            | Inr F_k \<Rightarrow> Inr (F_k ^ t)))"

text \<open>
  The loop of \<^verbatim>\<open>expectation\<close> over \<^verbatim>\<open>range(self.n+1)\<close>, with the running \<^verbatim>\<open>total\<close> as \<open>tot\<close>;
  it stops at the first call of \<open>pmf\<close> that raises.
\<close>

fun expectation_loop :: "engine \<Rightarrow> nat \<Rightarrow> int list \<Rightarrow> real \<Rightarrow> error + real" where
  "expectation_loop self t [] tot = Inr tot"
| "expectation_loop self t (k # ks) tot =
     (case pmf self (of_int k) t of
        Inl err \<Rightarrow> Inl err
      | Inr v \<Rightarrow> expectation_loop self t ks (tot + of_int k * v))"

definition expectation :: "engine \<Rightarrow> nat \<Rightarrow> error + real" where
  "expectation self t =
     (case expectation_loop self t [0..self_n self] 0 of
        Inl err \<Rightarrow> Inl err
      | Inr tot \<Rightarrow> Inr (max (min tot (of_int (self_n self))) 0))"

text \<open>
  The method \<^verbatim>\<open>max_random_baseline\<close>: \<^verbatim>\<open>1/self.n\<close> is evaluated first and raises for
  \<open>n = 0\<close>.
\<close>

definition baseline :: "engine \<Rightarrow> nat \<Rightarrow> error + real" where
  "baseline self t =
     (if self_n self = 0 then Inl ZeroDivisionError
      else (case expectation self t of
              Inl err \<Rightarrow> Inl err
            | Inr e \<Rightarrow> Inr (1 / of_int (self_n self) * e)))"

text \<open>
  \<^verbatim>\<open>1 - self.F(self.n * acc - 1, t)\<close>: the int \<open>n\<close> is converted to a double, the product
  and the difference are rounded, and \<open>F\<close> floors what it is given.
\<close>

definition p_value :: "engine \<Rightarrow> real \<Rightarrow> nat \<Rightarrow> error + real" where
  "p_value self acc t =
     (case to_double (of_int (self_n self)) of
        Inl err \<Rightarrow> Inl err
      | Inr n' \<Rightarrow>
          (case to_double (n' * acc) of
             Inl err \<Rightarrow> Inl err
           | Inr nacc \<Rightarrow>
               (case F self (round_double (nacc - 1)) t of
                  Inl err \<Rightarrow> Inl err
                | Inr v \<Rightarrow> Inr (1 - v))))"

text \<open>
  The module-level functions \<^verbatim>\<open>max_random_baseline(n, arg, t)\<close> and
  \<^verbatim>\<open>max_random_p_value(acc, n, arg, t)\<close>.
\<close>

definition max_random_baseline ::
  "(real list \<Rightarrow> error + poibin) \<Rightarrow> int \<Rightarrow> arg \<Rightarrow> nat \<Rightarrow> error + real" where
  "max_random_baseline PoiBin n a t =
     (case init PoiBin n a of
        Inl err \<Rightarrow> Inl err
      | Inr order \<Rightarrow> baseline order t)"

definition max_random_p_value ::
  "(real list \<Rightarrow> error + poibin) \<Rightarrow> real \<Rightarrow> int \<Rightarrow> arg \<Rightarrow> nat \<Rightarrow> error + real" where
  "max_random_p_value PoiBin acc n a t =
     (case init PoiBin n a of
        Inl err \<Rightarrow> Inl err
      | Inr order \<Rightarrow> p_value order acc t)"


section \<open>Quantities the specification speaks of\<close>

text \<open>
  The expression \<^verbatim>\<open>sum(pmf(j, t) for j in js)\<close> of the testable properties; like the
  loop of \<open>expectation\<close> it stops at the first call that raises.
\<close>

fun spec_sum_pmf :: "engine \<Rightarrow> nat \<Rightarrow> int list \<Rightarrow> error + real" where
  "spec_sum_pmf self t [] = Inr 0"
| "spec_sum_pmf self t (j # js) =
     (case pmf self (of_int j) t of
        Inl err \<Rightarrow> Inl err
      | Inr v \<Rightarrow>
          (case spec_sum_pmf self t js of
             Inl err \<Rightarrow> Inl err
           | Inr s \<Rightarrow> Inr (v + s)))"

text \<open>
  In the specification's words, \<open>pmf(j, t)\<close> is the probability that the best of \<open>t\<close>
  classifiers gets exactly \<open>j\<close> of the \<open>n\<close> examples right, that is, scores the accuracy
  \<open>j / n\<close>.  The probability that the best one scores strictly more than \<open>acc\<close> is then
  the mass of the counts \<open>j\<close> in \<open>0..n\<close> with \<open>acc < j / n\<close>.
\<close>

definition spec_prob_max_above :: "engine \<Rightarrow> real \<Rightarrow> nat \<Rightarrow> error + real" where
  "spec_prob_max_above self acc t =
     spec_sum_pmf self t
       (filter (\<lambda>j. acc < of_int j / of_int (self_n self)) [0..self_n self])"

text \<open>
  A consistent pair of \<open>cdf\<close> and \<open>pmf\<close> on \<open>0..m\<close>: both return there, and
  \<open>cdf(j) - pmf(j) = cdf(j - 1)\<close>, with \<open>cdf(-1)\<close> read as \<open>0\<close>.
\<close>

definition consistent_model :: "poibin \<Rightarrow> int \<Rightarrow> bool" where
  "consistent_model pb m \<longleftrightarrow>
     (\<forall>j \<in> set [0..m].
        case (pb_cdf pb j, pb_pmf pb j) of
          (Inr c, Inr p) \<Rightarrow> (if j = 0 then c - p = 0 else pb_cdf pb (j - 1) = Inr (c - p))
        | _ \<Rightarrow> False)"


section \<open>Concrete engines\<close>

text \<open>
  Modelled from the spec: the class \<^verbatim>\<open>PoiBin\<close> is not among the sources.  \<open>pb_dist ps\<close> is
  the exact distribution of the number of successes in independent trials of
  probabilities \<open>ps\<close> (the point masses at \<open>0..length ps\<close>, by convolution).  As the
  specification asks of the model, \<open>cdf(k)\<close> is the probability of at most \<open>k\<close> successes,
  \<open>1\<close> for \<open>k \<ge> n\<close> and \<open>0\<close> for \<open>k < 0\<close>, and \<open>pmf(k)\<close> the probability of exactly \<open>k\<close>.
  It serves to run the theorems below on concrete engines only.
\<close>

fun pb_dist :: "real list \<Rightarrow> real list" where
  "pb_dist [] = [1]"
| "pb_dist (p # ps) =
     (let d = pb_dist ps in
      map2 (+) (map ((*) (1 - p)) d @ [0]) (0 # map ((*) p) d))"

definition exact_model :: "real list \<Rightarrow> poibin" where
  "exact_model ps =
     \<lparr>pb_cdf = (\<lambda>k. Inr (if k < 0 then 0
                         else if int (length ps) \<le> k then 1
                         else sum_list (take (nat k + 1) (pb_dist ps)))),
      pb_pmf = (\<lambda>k. Inr (if k < 0 \<or> int (length ps) < k then 0
                         else pb_dist ps ! nat k))\<rparr>"

definition exact_PoiBin :: "real list \<Rightarrow> error + poibin" where
  "exact_PoiBin ps = Inr (exact_model ps)"

text \<open>One, two and three trials of probability \<open>1/2\<close>.\<close>

definition one_coin_engine :: engine where
  "one_coin_engine = \<lparr>self_n = 1, self_pb = exact_model [1/2]\<rparr>"

definition two_coins_engine :: engine where
  "two_coins_engine = \<lparr>self_n = 2, self_pb = exact_model [1/2, 1/2]\<rparr>"

definition three_coins_engine :: engine where
  "three_coins_engine = \<lparr>self_n = 3, self_pb = exact_model [1/2, 1/2, 1/2]\<rparr>"

text \<open>A model whose every call raises: a result on it shows that no call was made.\<close>

definition raising_model :: poibin where
  "raising_model = \<lparr>pb_cdf = (\<lambda>k. Inl ModelError), pb_pmf = (\<lambda>k. Inl ModelError)\<rparr>"

definition raising_engine :: engine where
  "raising_engine = \<lparr>self_n = 2, self_pb = raising_model\<rparr>"


section \<open>Rounding\<close>

lemma round_half_even_of_int [simp]: "round_half_even (of_int m) = m"
  by (simp add: round_half_even_def)

lemma round_half_even_numeral [simp]:
  "round_half_even (numeral w) = numeral w"
  "round_half_even (- numeral w) = - numeral w"
  "round_half_even 0 = 0"
  "round_half_even 1 = 1"
  using round_half_even_of_int [of "numeral w"] round_half_even_of_int [of "- numeral w"]
    round_half_even_of_int [of 0] round_half_even_of_int [of 1]
  by simp_all

lemma round_half_even_ge: "of_int m \<le> q \<Longrightarrow> m \<le> round_half_even q"
proof -
  assume "of_int m \<le> q"
  then have "m \<le> \<lfloor>q\<rfloor>" by (simp add: le_floor_iff)
  moreover have "\<lfloor>q\<rfloor> \<le> round_half_even q"
    by (simp add: round_half_even_def Let_def)
  ultimately show ?thesis by simp
qed

lemma round_half_even_le: "q \<le> of_int m \<Longrightarrow> round_half_even q \<le> m"
proof (cases "q = of_int m")
  case True
  then show ?thesis by simp
next
  case False
  assume "q \<le> of_int m"
  with False have "q < of_int m" by simp
  then have "\<lfloor>q\<rfloor> < m" by (simp add: floor_less_iff)
  moreover have "round_half_even q \<le> \<lfloor>q\<rfloor> + 1"
    by (simp add: round_half_even_def Let_def)
  ultimately show ?thesis by simp
qed

lemma two_powi_pos [simp]: "0 < (2::real) powi k"
  by (simp add: power_int_def)

lemma floor_log2_eq:
  assumes "2 powi k \<le> \<bar>x\<bar>" and "\<bar>x\<bar> < 2 powi (k + 1)"
  shows "\<lfloor>log 2 \<bar>x\<bar>\<rfloor> = k"
proof -
  have pos: "0 < \<bar>x\<bar>" using assms(1) two_powi_pos [of k] by linarith
  have a: "(2::real) powr (of_int k) = 2 powi k"
    by (rule powr_real_of_int') simp_all
  have "(2::real) powr (of_int (k + 1)) = 2 powi (k + 1)"
    by (rule powr_real_of_int') simp_all
  then have b: "(2::real) powr (of_int k + 1) = 2 powi (k + 1)" by simp
  have "2 powr (of_int k) \<le> \<bar>x\<bar> \<and> \<bar>x\<bar> < 2 powr (of_int k + 1)"
    unfolding a b using assms by simp
  then show ?thesis using pos floor_log_eq_powr_iff [of "\<bar>x\<bar>" 2 k] by simp
qed

lemma round_double_binade:
  assumes "2 powi k \<le> \<bar>x\<bar>" and "\<bar>x\<bar> < 2 powi (k + 1)" and "- 1022 \<le> k"
  shows "round_double x = of_int (round_half_even (x / 2 powi (k - 52))) * 2 powi (k - 52)"
proof -
  have "0 < \<bar>x\<bar>" using assms(1) two_powi_pos [of k] by linarith
  then have "x \<noteq> 0" by auto
  then show ?thesis
    using floor_log2_eq [OF assms(1,2)] assms(3) by (simp add: round_double_def Let_def max_def)
qed

lemma round_double_0 [simp]: "round_double 0 = 0" by (simp add: round_double_def)

lemma round_double_1: "round_double 1 = 1"
  using round_double_binade [of 0 1] by simp

lemma round_double_2: "round_double 2 = 2"
  using round_double_binade [of 1 2] by simp

lemma round_double_3: "round_double 3 = 3"
  using round_double_binade [of 1 3] by simp

lemma round_double_third_times_3:
  "round_double (3 * (6004799503160661/18014398509481984)) = 1"
  using round_double_binade [of "- 1" "3 * (6004799503160661/18014398509481984)"]
  by (simp add: round_half_even_def)

lemma round_double_two_thirds_times_3:
  "round_double (3 * (6004799503160661/9007199254740992)) = 2"
  using round_double_binade [of 0 "3 * (6004799503160661/9007199254740992)"]
  by (simp add: round_half_even_def)

lemma round_double_half: "round_double (1/2) = 1/2"
  using round_double_binade [of "- 1" "1/2"] by simp

lemma to_double_small:
  "to_double 0 = Inr 0" "to_double 1 = Inr 1" "to_double 2 = Inr 2" "to_double 3 = Inr 3"
  "to_double (1/2) = Inr (1/2)"
  by (simp_all add: to_double_def round_double_1 round_double_2 round_double_3 round_double_half)

lemma to_double_third_times_3:
  "to_double (3 * (6004799503160661/18014398509481984)) = Inr 1"
  by (simp only: to_double_def round_double_third_times_3 Let_def) simp

lemma to_double_third_times_3_normal:
  "to_double (18014398509481983 / 18014398509481984) = Inr 1"
  using to_double_third_times_3 by simp

lemma to_double_Inr: "to_double x = Inr r \<Longrightarrow> r = round_double x"
  by (simp add: to_double_def Let_def split: if_splits)

lemma binade_bounds:
  assumes "x \<noteq> 0"
  shows "2 powi \<lfloor>log 2 \<bar>x\<bar>\<rfloor> \<le> \<bar>x\<bar>" and "\<bar>x\<bar> < 2 powi (\<lfloor>log 2 \<bar>x\<bar>\<rfloor> + 1)"
proof -
  define k where "k = \<lfloor>log 2 \<bar>x\<bar>\<rfloor>"
  have pos: "0 < \<bar>x\<bar>" using assms by simp
  have a: "(2::real) powr (of_int k) = 2 powi k"
    by (rule powr_real_of_int') simp_all
  have "(2::real) powr (of_int (k + 1)) = 2 powi (k + 1)"
    by (rule powr_real_of_int') simp_all
  then have b: "(2::real) powr (of_int k + 1) = 2 powi (k + 1)" by simp
  have "\<lfloor>log 2 \<bar>x\<bar>\<rfloor> = k" by (simp only: k_def)
  then have "2 powr (of_int k) \<le> \<bar>x\<bar> \<and> \<bar>x\<bar> < 2 powr (of_int k + 1)"
    using pos floor_log_eq_powr_iff [of "\<bar>x\<bar>" 2 k] by simp
  then have "2 powi k \<le> \<bar>x\<bar>" and "\<bar>x\<bar> < 2 powi (k + 1)"
    unfolding a b by simp_all
  then show "2 powi \<lfloor>log 2 \<bar>x\<bar>\<rfloor> \<le> \<bar>x\<bar>" and "\<bar>x\<bar> < 2 powi (\<lfloor>log 2 \<bar>x\<bar>\<rfloor> + 1)"
    by (simp_all only: k_def)
qed

text \<open>The shape of a rounded value: an integer multiple of the spacing of its binade.\<close>

lemma round_double_cases:
  assumes "x \<noteq> 0"
  obtains k e where "2 powi k \<le> \<bar>x\<bar>" and "\<bar>x\<bar> < 2 powi (k + 1)" and "e = max k (- 1022)"
    and "round_double x = of_int (round_half_even (x / 2 powi (e - 52))) * 2 powi (e - 52)"
proof -
  define k where "k = \<lfloor>log 2 \<bar>x\<bar>\<rfloor>"
  define e where "e = max k (- 1022)"
  have "round_double x = of_int (round_half_even (x / 2 powi (e - 52))) * 2 powi (e - 52)"
    using assms by (simp add: round_double_def Let_def e_def k_def)
  moreover have "2 powi k \<le> \<bar>x\<bar>" "\<bar>x\<bar> < 2 powi (k + 1)"
    using binade_bounds [OF assms] by (simp_all only: k_def)
  ultimately show ?thesis using that [of k e] e_def by blast
qed

lemma round_double_nonpos: "x \<le> 0 \<Longrightarrow> round_double x \<le> 0"
proof (cases "x = 0")
  case True
  then show ?thesis by simp
next
  case False
  assume neg: "x \<le> 0"
  from round_double_cases [OF False] obtain k e where
    rd: "round_double x = of_int (round_half_even (x / 2 powi (e - 52))) * 2 powi (e - 52)"
    by blast
  define u where "u = (2::real) powi (e - 52)"
  have u: "0 < u" by (simp add: u_def)
  from neg u have "x / u \<le> of_int 0" by (simp add: divide_nonpos_pos)
  then have "round_half_even (x / u) \<le> 0" by (rule round_half_even_le)
  then have "of_int (round_half_even (x / u)) * u \<le> 0"
    using u by (simp add: mult_le_0_iff)
  then show ?thesis using rd by (simp only: u_def)
qed

lemma round_double_neg:
  assumes "x < 0" and "2 powi (- 1074) \<le> \<bar>x\<bar>"
  shows "round_double x < 0"
proof -
  have nz: "x \<noteq> 0" using assms(1) by simp
  from round_double_cases [OF nz] obtain k e where
    lo: "2 powi k \<le> \<bar>x\<bar>" and e: "e = max k (- 1022)"
    and rd: "round_double x = of_int (round_half_even (x / 2 powi (e - 52))) * 2 powi (e - 52)"
    by blast
  define u where "u = (2::real) powi (e - 52)"
  have u: "0 < u" by (simp add: u_def)
  have "u \<le> \<bar>x\<bar>"
  proof (cases "- 1022 \<le> k")
    case True
    then have "e = k" using e by simp
    then have "u = 2 powi (k - 52)" by (simp only: u_def)
    also have "\<dots> \<le> 2 powi k" by (rule power_int_increasing) simp_all
    also have "\<dots> \<le> \<bar>x\<bar>" by (rule lo)
    finally show ?thesis .
  next
    case False
    then have "e - 52 = - 1074" using e by simp
    then have "u = 2 powi (- 1074)" by (simp only: u_def)
    then show ?thesis using assms(2) by (simp only:)
  qed
  then have "u \<le> - x" using assms(1) by simp
  then have "x / u \<le> - 1" using u by (simp add: pos_divide_le_eq)
  then have "x / u \<le> of_int (- 1)" by simp
  then have "round_half_even (x / u) \<le> - 1" by (rule round_half_even_le)
  then have "(of_int (round_half_even (x / u)) :: real) \<le> - 1" by linarith
  then have "of_int (round_half_even (x / u)) * u \<le> - 1 * u"
    using u by (simp only: mult_le_cancel_right_pos)
  then have "of_int (round_half_even (x / u)) * u < 0" using u by linarith
  then show ?thesis using rd by (simp only: u_def)
qed

text \<open>The largest double below \<open>1\<close> is \<open>1 - 2^-53\<close>.\<close>

lemma round_double_below_1:
  assumes "round_double y < 1"
  shows "round_double y \<le> 1 - 2 powi (- 53)"
proof (cases "y \<le> 0")
  case True
  then have "round_double y \<le> 0" by (rule round_double_nonpos)
  moreover have "(2::real) powi (- 53) \<le> 1" by simp
  ultimately show ?thesis by linarith
next
  case False
  then have pos: "0 < y" and nz: "y \<noteq> 0" and ab: "\<bar>y\<bar> = y" by simp_all
  from round_double_cases [OF nz] obtain k e where
    lo': "2 powi k \<le> \<bar>y\<bar>" and hi': "\<bar>y\<bar> < 2 powi (k + 1)" and e: "e = max k (- 1022)"
    and rd: "round_double y = of_int (round_half_even (y / 2 powi (e - 52))) * 2 powi (e - 52)"
    by blast
  have lo: "2 powi k \<le> y" and hi: "y < 2 powi (k + 1)"
    using lo' hi' by (simp_all only: ab)
  define u where "u = (2::real) powi (e - 52)"
  define m where "m = round_half_even (y / u)"
  have u: "0 < u" by (simp add: u_def)
  have x: "round_double y = of_int m * u" using rd by (simp only: u_def m_def)
  consider "0 \<le> k" | "k = - 1" | "k \<le> - 2" by linarith
  then show ?thesis
  proof cases
    case 1
    then have ek: "e = k" using e by simp
    have "u * 2 ^ 52 = 2 powi (e - 52) * 2 powi 52" by (simp add: u_def)
    also have "\<dots> = 2 powi (e - 52 + 52)"
      by (rule power_int_add [symmetric]) simp
    finally have uk: "u * 2 ^ 52 = 2 powi k" by (simp add: ek)
    have "of_int (2 ^ 52) * u \<le> y" using lo uk by (simp add: mult.commute)
    then have "of_int (2 ^ 52) \<le> y / u" using u by (simp add: pos_le_divide_eq)
    then have "2 ^ 52 \<le> m" unfolding m_def by (rule round_half_even_ge)
    then have "(of_int (2 ^ 52) :: real) \<le> of_int m" by (simp only: of_int_le_iff)
    then have "of_int (2 ^ 52) * u \<le> of_int m * u"
      using u by (simp only: mult_le_cancel_right_pos)
    then have "2 powi k \<le> of_int m * u" using uk by (simp add: mult.commute)
    moreover have "(1::real) \<le> 2 powi k"
      using power_int_increasing [of 0 k "2::real"] 1 by simp
    ultimately have "1 \<le> round_double y" using x by linarith
    with assms show ?thesis by simp
  next
    case 2
    then have "e - 52 = - 53" using e by simp
    then have "u = 2 powi (- 53)" by (simp only: u_def)
    then have uv: "u = 1 / 2 ^ 53" by (simp add: power_int_minus_divide)
    have xv: "round_double y = of_int m / 2 ^ 53" using x uv by simp
    with assms have "of_int m < (2 ^ 53 :: real)" by (simp add: pos_divide_less_eq)
    then have "(of_int m :: real) < of_int (2 ^ 53)" by simp
    then have "m < 2 ^ 53" by (simp only: of_int_less_iff)
    then have "m \<le> 2 ^ 53 - 1" by simp
    then have "(of_int m :: real) \<le> of_int (2 ^ 53 - 1)" by (simp only: of_int_le_iff)
    then have "(of_int m :: real) \<le> 2 ^ 53 - 1" by simp
    then have "of_int m / 2 ^ 53 \<le> ((2 ^ 53 - 1) / 2 ^ 53 :: real)"
      by (simp add: divide_le_cancel)
    then show ?thesis using xv by (simp add: power_int_minus_divide)
  next
    case 3
    then have ke: "k \<le> e" and e2: "e \<le> - 2" using e by simp_all
    have "u * 2 ^ 53 = 2 powi (e - 52) * 2 powi 53" by (simp add: u_def)
    also have "\<dots> = 2 powi (e - 52 + 53)"
      by (rule power_int_add [symmetric]) simp
    finally have ue: "u * 2 ^ 53 = 2 powi (e + 1)" by (simp add: algebra_simps)
    have "y < 2 powi (k + 1)" by (rule hi)
    also have "\<dots> \<le> 2 powi (e + 1)"
      by (rule power_int_increasing) (use ke in simp_all)
    finally have "y < of_int (2 ^ 53) * u" using ue by (simp add: mult.commute)
    then have "y / u \<le> of_int (2 ^ 53)" using u by (simp add: pos_divide_le_eq)
    then have "m \<le> 2 ^ 53" unfolding m_def by (rule round_half_even_le)
    then have "(of_int m :: real) \<le> of_int (2 ^ 53)" by (simp only: of_int_le_iff)
    then have "of_int m * u \<le> of_int (2 ^ 53) * u"
      using u by (simp only: mult_le_cancel_right_pos)
    then have "of_int m * u \<le> 2 powi (e + 1)" using ue by (simp add: mult.commute)
    moreover have "(2::real) powi (e + 1) \<le> 2 powi (- 1)"
      by (rule power_int_increasing) (use e2 in simp_all)
    ultimately have "round_double y \<le> 1/2" using x by (simp add: power_int_minus_divide)
    moreover have "(2::real) powi (- 53) \<le> 1/2"
      using power_int_increasing [of "- 53" "- 1" "2::real"] by (simp add: power_int_minus_divide)
    ultimately show ?thesis by linarith
  qed
qed

lemma floor_computed_argument_neg:
  assumes "round_double y < 1"
  shows "\<lfloor>round_double (round_double y - 1)\<rfloor> < 0"
proof -
  define z where "z = round_double y - 1"
  have z: "z \<le> - (2 powi (- 53))" using round_double_below_1 [OF assms] by (simp add: z_def)
  have p: "0 < (2::real) powi (- 53)" by simp
  have "(2::real) powi (- 1074) \<le> 2 powi (- 53)"
    by (rule power_int_increasing) simp_all
  then have "2 powi (- 1074) \<le> \<bar>z\<bar>" using z p by linarith
  moreover have "z < 0" using z p by linarith
  ultimately have "round_double z < 0" by (rule round_double_neg [rotated])
  then have "\<lfloor>round_double z\<rfloor> < 0" by (simp add: floor_less_iff)
  then show ?thesis by (simp only: z_def)
qed


section \<open>The concrete engines, evaluated\<close>

lemma two_coins_cdf:
  "pb_cdf (self_pb two_coins_engine) k =
     Inr (if k < 0 then 0 else if k = 0 then 1/4 else if k = 1 then 3/4 else 1)"
proof -
  consider "k < 0" | "k = 0" | "k = 1" | "2 \<le> k" by linarith
  then show ?thesis
    by cases (auto simp: two_coins_engine_def exact_model_def numeral_2_eq_2)
qed

lemma two_coins_pmf:
  "pb_pmf (self_pb two_coins_engine) k =
     Inr (if k = 0 \<or> k = 2 then 1/4 else if k = 1 then 1/2 else 0)"
proof -
  consider "k < 0 \<or> 2 < k" | "k = 0" | "k = 1" | "k = 2" by linarith
  then show ?thesis
    by cases (auto simp: two_coins_engine_def exact_model_def numeral_2_eq_2)
qed

lemma one_coin_cdf:
  "pb_cdf (self_pb one_coin_engine) k =
     Inr (if k < 0 then 0 else if k = 0 then 1/2 else 1)"
proof -
  consider "k < 0" | "k = 0" | "1 \<le> k" by linarith
  then show ?thesis
    by cases (auto simp: one_coin_engine_def exact_model_def)
qed

lemma one_coin_pmf:
  "pb_pmf (self_pb one_coin_engine) k = Inr (if k = 0 \<or> k = 1 then 1/2 else 0)"
proof -
  consider "k < 0 \<or> 1 < k" | "k = 0" | "k = 1" by linarith
  then show ?thesis
    by cases (auto simp: one_coin_engine_def exact_model_def)
qed

lemma three_coins_cdf_0: "pb_cdf (self_pb three_coins_engine) 0 = Inr (1/8)"
  by (simp add: three_coins_engine_def exact_model_def)

lemma three_coins_cdf_1: "pb_cdf (self_pb three_coins_engine) 1 = Inr (1/2)"
  by (simp add: three_coins_engine_def exact_model_def numeral_2_eq_2)

lemma upto_0_1: "[0..1::int] = [0, 1]" by (simp add: upto.simps)
lemma upto_0_2: "[0..2::int] = [0, 1, 2]" by (simp add: upto.simps)

lemma two_coins_n: "self_n two_coins_engine = 2" by (simp add: two_coins_engine_def)
lemma one_coin_n: "self_n one_coin_engine = 1" by (simp add: one_coin_engine_def)
lemma three_coins_n: "self_n three_coins_engine = 3" by (simp add: three_coins_engine_def)

lemma two_coins_consistent: "consistent_model (self_pb two_coins_engine) 2"
  by (simp add: consistent_model_def upto_0_2 two_coins_cdf two_coins_pmf)

lemma two_coins_pmf_max:
  "pmf two_coins_engine 0 t = Inr ((1/4) ^ t - 0 ^ t)"
  "pmf two_coins_engine 1 t = Inr ((3/4) ^ t - (1/4) ^ t)"
  "pmf two_coins_engine 2 t = Inr (1 - (3/4) ^ t)"
  by (simp_all add: pmf_def two_coins_cdf two_coins_pmf)

lemma two_coins_expectation: "expectation two_coins_engine 2 = Inr (11/8)"
  by (simp add: expectation_def two_coins_n upto_0_2 two_coins_pmf_max power2_eq_square)

lemma int_interval_0_2: "{0..2::int} = {0, 1, 2}" by auto

text \<open>
  For \<open>n = 3\<close> and the double \<open>acc = 0.6666666666666666\<close> the product rounds up to \<open>2.0\<close>,
  so that \<open>p_value\<close> reads the model at \<open>1\<close>, not at \<open>0\<close>.
\<close>

lemma p_value_two_thirds:
  "p_value three_coins_engine (6004799503160661/9007199254740992) 1 = Inr (1/2)"
proof -
  have "to_double (3 * (6004799503160661/9007199254740992)) = Inr 2"
    by (simp only: to_double_def round_double_two_thirds_times_3 Let_def) simp
  then have "to_double (18014398509481983/9007199254740992) = Inr 2" by simp
  then show ?thesis
    by (simp add: p_value_def F_def three_coins_n to_double_small round_double_1
        three_coins_cdf_1)
qed

lemma one_coin_init: "init exact_PoiBin 1 (Scalar (1/2)) = Inr one_coin_engine"
  by (simp add: init_def convert_arg_to_ps_def exact_PoiBin_def one_coin_engine_def)

lemma exact_PoiBin_two_coins: "exact_PoiBin [1/2, 1/2] = Inr (exact_model [1/2, 1/2])"
  by (simp add: exact_PoiBin_def)

lemma two_coins_baseline: "max_random_baseline exact_PoiBin 2 (Sequence [1/2, 1/2]) 2 = Inr (11/16)"
proof -
  have "init exact_PoiBin 2 (Sequence [1/2, 1/2]) = Inr two_coins_engine"
    by (simp add: init_def convert_arg_to_ps_def exact_PoiBin_two_coins two_coins_engine_def)
  then show ?thesis
    by (simp add: max_random_baseline_def baseline_def two_coins_n two_coins_expectation)
qed


section \<open>Loops and sums\<close>

lemma expectation_loop_sum:
  "(\<forall>k\<in>set ks. pmf self (of_int k) t = Inr (q k)) \<Longrightarrow>
   expectation_loop self t ks tot = Inr (tot + (\<Sum>k\<leftarrow>ks. of_int k * q k))"
  by (induction ks arbitrary: tot) (simp_all add: algebra_simps)

lemma sum_list_upto: "(\<Sum>k\<leftarrow>[i..j]. f k) = (\<Sum>k = i..j. (f k :: real))"
  by (simp add: sum_list_distinct_conv_sum_set)


section \<open>Consistent models: the mass function telescopes\<close>

lemma consistent_modelD:
  assumes "consistent_model pb m" and "0 \<le> j" and "j \<le> m"
  shows "pb_cdf pb j = Inr (projr (pb_cdf pb j))"
    and "pb_pmf pb j = Inr (projr (pb_pmf pb j))"
    and "j = 0 \<Longrightarrow> projr (pb_cdf pb j) - projr (pb_pmf pb j) = 0"
    and "j \<noteq> 0 \<Longrightarrow>
           projr (pb_cdf pb j) - projr (pb_pmf pb j) = projr (pb_cdf pb (j - 1))"
proof -
  from assms have
    "case (pb_cdf pb j, pb_pmf pb j) of
       (Inr c, Inr p) \<Rightarrow> (if j = 0 then c - p = 0 else pb_cdf pb (j - 1) = Inr (c - p))
     | _ \<Rightarrow> False"
    by (simp add: consistent_model_def)
  then obtain c p where cp: "pb_cdf pb j = Inr c" "pb_pmf pb j = Inr p"
    and st: "if j = 0 then c - p = 0 else pb_cdf pb (j - 1) = Inr (c - p)"
    by (auto split: sum.splits)
  show "pb_cdf pb j = Inr (projr (pb_cdf pb j))" using cp by simp
  show "pb_pmf pb j = Inr (projr (pb_pmf pb j))" using cp by simp
  show "j = 0 \<Longrightarrow> projr (pb_cdf pb j) - projr (pb_pmf pb j) = 0" using cp st by simp
  show "j \<noteq> 0 \<Longrightarrow>
           projr (pb_cdf pb j) - projr (pb_pmf pb j) = projr (pb_cdf pb (j - 1))"
    using cp st by simp
qed

lemma pmf_consistent:
  assumes "consistent_model (self_pb self) m" and "0 \<le> j" and "j \<le> m"
  shows "pmf self (of_int j) t =
           Inr (projr (pb_cdf (self_pb self) j) ^ t
                - (if j = 0 then 0 else projr (pb_cdf (self_pb self) (j - 1))) ^ t)"
proof -
  note D = consistent_modelD [OF assms]
  have "pmf self (of_int j) t =
          Inr (projr (pb_cdf (self_pb self) j) ^ t
               - (projr (pb_cdf (self_pb self) j) - projr (pb_pmf (self_pb self) j)) ^ t)"
  proof -
    obtain c p where "pb_cdf (self_pb self) j = Inr c" "pb_pmf (self_pb self) j = Inr p"
      using D(1) D(2) by blast
    then show ?thesis by (simp add: pmf_def)
  qed
  then show ?thesis using D(3) D(4) by (cases "j = 0") simp_all
qed

lemma spec_sum_pmf_telescope:
  assumes "consistent_model (self_pb self) m"
  shows "0 \<le> a \<Longrightarrow> a \<le> b \<Longrightarrow> b \<le> m \<Longrightarrow>
         spec_sum_pmf self t [a..b] =
           Inr (projr (pb_cdf (self_pb self) b) ^ t
                - (if a = 0 then 0 else projr (pb_cdf (self_pb self) (a - 1))) ^ t)"
proof (induction a b rule: upto.induct)
  case (1 a b)
  have head: "pmf self (of_int a) t =
           Inr (projr (pb_cdf (self_pb self) a) ^ t
                - (if a = 0 then 0 else projr (pb_cdf (self_pb self) (a - 1))) ^ t)"
    using pmf_consistent [OF assms, of a t] 1 by simp
  have unfold: "[a..b] = a # [a + 1..b]" using 1 by (simp add: upto_rec1)
  show ?case
  proof (cases "a = b")
    case True
    then show ?thesis using head unfold by simp
  next
    case False
    with 1 have "a + 1 \<le> b" by simp
    with 1 have "spec_sum_pmf self t [a + 1..b] =
           Inr (projr (pb_cdf (self_pb self) b) ^ t - projr (pb_cdf (self_pb self) a) ^ t)"
      by simp
    then show ?thesis using head unfold by simp
  qed
qed

lemma F_consistent:
  assumes "consistent_model (self_pb self) m" and "0 \<le> j" and "j \<le> m"
  shows "F self (of_int j) t = Inr (projr (pb_cdf (self_pb self) j) ^ t)"
proof -
  obtain c where c: "pb_cdf (self_pb self) j = Inr c"
    using consistent_modelD(1) [OF assms] by blast
  show ?thesis using assms(2) by (simp add: F_def c)
qed


section \<open>The dict branch of the builder\<close>

lemma mapping_ps_Inr:
  "mapping_ps m = Inr ps \<Longrightarrow>
   ps = concat (map (\<lambda>(num_labels, num_examples).
                       replicate (nat num_examples) (1 / of_int num_labels)) m)"
  by (induction m arbitrary: ps rule: mapping_ps.induct) (auto split: if_splits sum.splits)

lemma mapping_ps_nonzero:
  "(\<forall>(num_labels, num_examples) \<in> set m. num_labels \<noteq> 0) \<Longrightarrow>
   mapping_ps m = Inr (concat (map (\<lambda>(num_labels, num_examples).
                       replicate (nat num_examples) (1 / of_int num_labels)) m))"
  by (induction m rule: mapping_ps.induct) auto

lemma length_produced:
  "(\<forall>(num_labels, num_examples) \<in> set m. 0 \<le> num_examples) \<Longrightarrow>
   int (length (concat (map (\<lambda>(num_labels, num_examples).
                       replicate (nat num_examples) (1 / of_int num_labels :: real)) m)))
   = (\<Sum>(num_labels, num_examples)\<leftarrow>m. num_examples)"
  by (induction m) auto


section \<open>The expectation and the baseline\<close>

text \<open>
  C1.  When every call \<open>pmf(k, t)\<close> for \<open>k = 0..n\<close> returns, \<open>expectation(t)\<close> is the
  sum over \<open>k = 0..n\<close> of \<open>k * pmf(k, t)\<close>, clamped by \<open>max(min(total, n), 0)\<close>, which
  lies in \<open>[0, n]\<close>; and \<open>max_random_baseline(t)\<close> is \<open>expectation(t)\<close> divided by \<open>n\<close>
  (for \<open>n = 0\<close> the division \<^verbatim>\<open>1/self.n\<close> raises).
\<close>

theorem expectation_formula:
  assumes "\<forall>k\<in>{0..self_n self}. pmf self (of_int k) t = Inr (q k)"
  shows "let S = (\<Sum>k = 0..self_n self. of_int k * q k);
             E = max (min S (of_int (self_n self))) 0
         in expectation self t = Inr E
          \<and> (0 \<le> self_n self \<longrightarrow> 0 \<le> E \<and> E \<le> of_int (self_n self))
          \<and> (self_n self \<noteq> 0 \<longrightarrow> baseline self t = Inr (E / of_int (self_n self)))"
proof -
  have "expectation_loop self t [0..self_n self] 0
        = Inr (0 + (\<Sum>k\<leftarrow>[0..self_n self]. of_int k * q k))"
    using assms by (intro expectation_loop_sum) simp
  then have "expectation_loop self t [0..self_n self] 0
        = Inr (\<Sum>k = 0..self_n self. of_int k * q k)"
    by (simp add: sum_list_upto)
  then show ?thesis
    by (simp add: expectation_def baseline_def Let_def)
qed

text \<open>C1 on two fair coins and \<open>t = 2\<close>: the expectation is \<open>11/8\<close>, the baseline \<open>11/16\<close>.\<close>

theorem expectation_formula_witness:
  "pmf two_coins_engine 0 2 = Inr (1/16)
   \<and> pmf two_coins_engine 1 2 = Inr (1/2)
   \<and> pmf two_coins_engine 2 2 = Inr (7/16)
   \<and> expectation two_coins_engine 2 = Inr (11/8)
   \<and> baseline two_coins_engine 2 = Inr (11/16)"
proof -
  define q :: "int \<Rightarrow> real" where "q k = (if k = 0 then 1/16 else if k = 1 then 1/2 else 7/16)" for k
  have v: "pmf two_coins_engine 0 2 = Inr (1/16)" "pmf two_coins_engine 1 2 = Inr (1/2)"
    "pmf two_coins_engine 2 2 = Inr (7/16)"
    by (simp_all add: two_coins_pmf_max power2_eq_square)
  have h: "\<forall>k\<in>{0..self_n two_coins_engine}. pmf two_coins_engine (of_int k) 2 = Inr (q k)"
    by (simp add: two_coins_n int_interval_0_2 v q_def)
  have s: "(\<Sum>k = 0..2. real_of_int k * q k) = 11/8"
    by (simp add: int_interval_0_2 q_def)
  from expectation_formula [OF h] have
    "expectation two_coins_engine 2 = Inr (11/8) \<and> baseline two_coins_engine 2 = Inr (11/16)"
    by (simp add: Let_def two_coins_n s)
  with v show ?thesis by simp
qed


section \<open>The probability mass function\<close>

text \<open>
  C2.  \<open>pmf(k, t)\<close> floors \<open>k\<close> first; when the model returns \<open>F_k\<close> for its \<open>cdf\<close> and
  \<open>f_k\<close> for its \<open>pmf\<close> at \<open>floor(k)\<close>, the result is \<open>F_k^t - (F_k - f_k)^t\<close>.
\<close>

theorem pmf_formula:
  assumes "pb_cdf (self_pb self) \<lfloor>k\<rfloor> = Inr F_k"
    and "pb_pmf (self_pb self) \<lfloor>k\<rfloor> = Inr f_k"
  shows "pmf self k t = Inr (F_k ^ t - (F_k - f_k) ^ t)
       \<and> pmf self k t = pmf self (of_int \<lfloor>k\<rfloor>) t"
  using assms by (simp add: pmf_def)

text \<open>C2 on two fair coins at \<open>k = 3/2\<close>, \<open>t = 2\<close>: \<open>(3/4)^2 - (1/4)^2 = 1/2\<close>.\<close>

theorem pmf_formula_witness:
  "pb_cdf (self_pb two_coins_engine) \<lfloor>3/2::real\<rfloor> = Inr (3/4)
   \<and> pb_pmf (self_pb two_coins_engine) \<lfloor>3/2::real\<rfloor> = Inr (1/2)
   \<and> pmf two_coins_engine (3/2) 2 = Inr (1/2)
   \<and> pmf two_coins_engine (3/2) 2 = pmf two_coins_engine 1 2"
proof -
  have fl: "\<lfloor>3/2::real\<rfloor> = 1" by linarith
  have c: "pb_cdf (self_pb two_coins_engine) \<lfloor>3/2::real\<rfloor> = Inr (3/4)"
    by (simp add: fl two_coins_cdf)
  have p: "pb_pmf (self_pb two_coins_engine) \<lfloor>3/2::real\<rfloor> = Inr (1/2)"
    by (simp add: fl two_coins_pmf)
  from pmf_formula [OF c p, of 2]
  have "pmf two_coins_engine (3/2) 2 = Inr (1/2)
      \<and> pmf two_coins_engine (3/2) 2 = pmf two_coins_engine 1 2"
    by (simp add: fl power2_eq_square two_coins_pmf_max)
  with c p show ?thesis by blast
qed


section \<open>The distribution function\<close>

text \<open>
  C3.  \<open>F(k, t)\<close> returns \<open>0\<close> whenever \<open>floor(k) < 0\<close>, whatever the model is (it is not
  called, so it cannot raise); otherwise it returns \<open>model.cdf(floor(k))^t\<close>, or the
  model's error.
\<close>

theorem F_formula:
  "(\<lfloor>k\<rfloor> < 0 \<longrightarrow> F self k t = Inr 0)
   \<and> (0 \<le> \<lfloor>k\<rfloor> \<longrightarrow> F self k t = map_sum id (\<lambda>c. c ^ t) (pb_cdf (self_pb self) \<lfloor>k\<rfloor>))"
  by (simp add: F_def split: sum.split)

text \<open>
  C3 on a model whose every call raises: at \<open>k = -1/2\<close> the result is \<open>0\<close>, at \<open>k = 3/2\<close>
  the model's error; and on two fair coins at \<open>k = 3/2\<close>, \<open>t = 2\<close>: \<open>(3/4)^2\<close>.
\<close>

theorem F_formula_witness:
  "\<lfloor>- 1/2 :: real\<rfloor> < 0
   \<and> pb_cdf (self_pb raising_engine) \<lfloor>- 1/2 :: real\<rfloor> = Inl ModelError
   \<and> F raising_engine (- 1/2) 3 = Inr 0
   \<and> 0 \<le> \<lfloor>3/2 :: real\<rfloor>
   \<and> F raising_engine (3/2) 2 = Inl ModelError
   \<and> F two_coins_engine (3/2) 2 = Inr (9/16)"
proof -
  have f1: "\<lfloor>- 1/2 :: real\<rfloor> = - 1" by linarith
  have f2: "\<lfloor>3/2 :: real\<rfloor> = 1" by linarith
  from F_formula [of "- 1/2" raising_engine 3] F_formula [of "3/2" raising_engine 2]
    F_formula [of "3/2" two_coins_engine 2]
  show ?thesis
    by (simp add: f1 f2 two_coins_cdf power2_eq_square raising_engine_def raising_model_def)
qed


section \<open>The p-value\<close>

text \<open>
  C4.  \<open>p_value(acc, t)\<close> is computed as \<open>1 - F(n * acc - 1, t)\<close>, and is not the probability
  that the best of \<open>t\<close> random classifiers scores strictly more than \<open>acc\<close>: for one trial
  of probability \<open>1/2\<close>, \<open>acc = 1\<close> and \<open>t = 1\<close>, \<^verbatim>\<open>max_random_p_value(1.0, 1, 0.5, 1)\<close>
  returns \<open>1 - F(0, 1) = 1/2\<close>, while no classifier scores more than the accuracy \<open>1\<close>, so
  that probability is \<open>0\<close>.  A score equal to \<open>acc\<close> is counted.
\<close>

theorem p_value_counts_a_tie:
  "init exact_PoiBin 1 (Scalar (1/2)) = Inr one_coin_engine
   \<and> max_random_p_value exact_PoiBin 1 1 (Scalar (1/2)) 1 = Inr (1/2)
   \<and> spec_prob_max_above one_coin_engine 1 1 = Inr 0"
  by (simp add: max_random_p_value_def one_coin_init p_value_def F_def one_coin_n
      to_double_small one_coin_cdf spec_prob_max_above_def upto_0_1)

text \<open>
  C5, as stated, fails.  At \<open>acc = 1/n\<close>: on two fair coins, \<open>p_value(1/2, 1) = 1 - F(0, 1)
  = 3/4\<close>.  And below \<open>1/n\<close>: for \<open>n = 3\<close> and the double \<open>acc = 0.3333333333333333\<close>, the
  product \<open>3 * acc\<close> rounds to \<open>1.0\<close>, so \<open>F(0, 1)\<close> is read again and the result is \<open>7/8\<close>.
\<close>

theorem p_value_at_one_over_n_counterexample:
  "(1/2 :: real) \<le> 1 / of_int (self_n two_coins_engine)
   \<and> p_value two_coins_engine (1/2) 1 = Inr (3/4)
   \<and> (6004799503160661/18014398509481984 :: real) < 1 / of_int (self_n three_coins_engine)
   \<and> p_value three_coins_engine (6004799503160661/18014398509481984) 1 = Inr (7/8)"
  by (simp add: p_value_def F_def two_coins_n three_coins_n to_double_small
      to_double_third_times_3_normal two_coins_cdf three_coins_cdf_0)

text \<open>
  C5, amended.  When \<open>n\<close> converts to a double, \<open>p_value(acc, t)\<close> is exactly \<open>1\<close> whenever
  the double product \<open>n * acc\<close> is below \<open>1\<close>: then the double \<open>n * acc - 1\<close> is negative,
  its floor is below \<open>0\<close>, and \<open>F\<close> returns \<open>0\<close> without a call of the model.  In particular
  \<open>p_value(0, t) = 1 - F(-1, t) = 1\<close>.
\<close>

theorem p_value_one_below_rounded_product:
  "(\<forall>n' nacc. to_double (of_int (self_n self)) = Inr n'
        \<and> to_double (n' * acc) = Inr nacc \<and> nacc < 1
      \<longrightarrow> p_value self acc t = Inr 1)
   \<and> (\<not> isl (to_double (of_int (self_n self))) \<longrightarrow> p_value self 0 t = Inr 1)"
proof -
  have key: "p_value self a t = Inr 1"
    if "to_double (of_int (self_n self)) = Inr n'" and "to_double (n' * a) = Inr nacc"
      and "nacc < 1" for a n' nacc
  proof -
    have "nacc = round_double (n' * a)" using that(2) by (rule to_double_Inr)
    with that(3) have "\<lfloor>round_double (nacc - 1)\<rfloor> < 0"
      using floor_computed_argument_neg [of "n' * a"] by simp
    then have "F self (round_double (nacc - 1)) t = Inr 0" by (simp add: F_def)
    then show ?thesis using that(1,2) by (simp add: p_value_def)
  qed
  show ?thesis
  proof (intro conjI allI impI)
    fix n' nacc
    assume "to_double (of_int (self_n self)) = Inr n'
        \<and> to_double (n' * acc) = Inr nacc \<and> nacc < 1"
    then show "p_value self acc t = Inr 1" using key by blast
  next
    assume "\<not> isl (to_double (of_int (self_n self)))"
    then obtain n' where n': "to_double (of_int (self_n self)) = Inr n'"
      by (cases "to_double (of_int (self_n self))") simp_all
    have "to_double (n' * 0) = Inr 0" by (simp add: to_double_small)
    from key [OF n' this] show "p_value self 0 t = Inr 1" by simp
  qed
qed

text \<open>C5 (amended) on two fair coins at \<open>acc = 1/4\<close>, where \<open>2 * acc = 1/2\<close>, and at \<open>acc = 0\<close>.\<close>

theorem p_value_one_below_rounded_product_witness:
  "to_double (of_int (self_n two_coins_engine)) = Inr 2
   \<and> to_double (2 * (1/4)) = Inr (1/2)
   \<and> p_value two_coins_engine (1/4) 3 = Inr 1
   \<and> p_value two_coins_engine 0 3 = Inr 1"
proof -
  have a: "to_double (of_int (self_n two_coins_engine)) = Inr 2"
    by (simp add: two_coins_n to_double_small)
  have b: "to_double (2 * (1/4)) = Inr (1/2)" by (simp add: to_double_small)
  have h: "to_double (of_int (self_n two_coins_engine)) = Inr 2
        \<and> to_double (2 * (1/4)) = Inr (1/2) \<and> (1/2 :: real) < 1"
    using a b by simp
  have i: "\<not> isl (to_double (of_int (self_n two_coins_engine)))" using a by simp
  note inst = p_value_one_below_rounded_product [of two_coins_engine "1/4" 3]
  from inst [THEN conjunct1, rule_format, OF h]
  have c: "p_value two_coins_engine (1/4) 3 = Inr 1" .
  from inst [THEN conjunct2, THEN mp, OF i]
  have d: "p_value two_coins_engine 0 3 = Inr 1" .
  from a b c d show ?thesis by simp
qed


section \<open>The distribution function accumulates the mass function\<close>

text \<open>
  C6.  For a model that is a consistent cdf/pmf pair on \<open>0..n\<close>, every \<open>t > 0\<close> and every
  integer \<open>k\<close> in \<open>[0, n]\<close>, \<open>F(k, t)\<close> returns, and equals
  \<^verbatim>\<open>sum(pmf(j, t) for j in range(0, k+1))\<close>.
\<close>

theorem F_cumulative_pmf:
  assumes "consistent_model (self_pb self) (self_n self)"
    and "0 \<le> k" and "k \<le> self_n self" and "0 < t"
  shows "F self (of_int k) t = spec_sum_pmf self t [0..k]
       \<and> \<not> isl (F self (of_int k) t)"
  using assms F_consistent [OF assms(1-3), of t]
    spec_sum_pmf_telescope [OF assms(1), of 0 k t]
  by simp

text \<open>C6 on two fair coins, \<open>k = 1\<close>, \<open>t = 2\<close>: both sides are \<open>9/16\<close>.\<close>

theorem F_cumulative_pmf_witness:
  "consistent_model (self_pb two_coins_engine) (self_n two_coins_engine)
   \<and> F two_coins_engine 1 2 = Inr (9/16)
   \<and> spec_sum_pmf two_coins_engine 2 [0..1] = Inr (9/16)"
proof -
  have c: "consistent_model (self_pb two_coins_engine) (self_n two_coins_engine)"
    by (simp add: two_coins_n two_coins_consistent)
  have v: "F two_coins_engine 1 2 = Inr (9/16)"
    by (simp add: F_def two_coins_cdf power2_eq_square)
  from F_cumulative_pmf [OF c, of 1 2] v c show ?thesis by (simp add: two_coins_n)
qed


section \<open>The builder\<close>

text \<open>
  C7, as stated, fails for the list form: a list of one probability is accepted for
  \<open>n = 3\<close>, and the engine is built with \<open>n = 3\<close> on a model of one trial.
\<close>

theorem sequence_length_unchecked_counterexample:
  "convert_arg_to_ps 3 (Sequence [1/2]) = Inr [1/2]
   \<and> int (length [1/2 :: real]) \<noteq> 3
   \<and> init exact_PoiBin 3 (Sequence [1/2]) = Inr \<lparr>self_n = 3, self_pb = exact_model [1/2]\<rparr>"
  by (simp add: init_def convert_arg_to_ps_def exact_PoiBin_def)

text \<open>
  C7, amended.  When the builder returns \<open>ps\<close>: for a float and \<open>n \<ge> 0\<close>, and for a dict,
  \<open>length(ps) = n\<close>; for a list, \<open>ps\<close> is the list itself, unchecked, so \<open>length(ps) = n\<close>
  exactly when the caller's list has \<open>n\<close> entries.  Any other argument exits.
\<close>

theorem ps_length:
  "(\<forall>p ps. 0 \<le> n \<and> convert_arg_to_ps n (Scalar p) = Inr ps \<longrightarrow> int (length ps) = n)
   \<and> (\<forall>m ps. convert_arg_to_ps n (Mapping m) = Inr ps \<longrightarrow> int (length ps) = n)
   \<and> (\<forall>xs ps. convert_arg_to_ps n (Sequence xs) = Inr ps \<longrightarrow>
         ps = xs \<and> (int (length ps) = n \<longleftrightarrow> int (length xs) = n))
   \<and> convert_arg_to_ps n Unrecognized = Inl SystemExit"
  by (auto simp: convert_arg_to_ps_def split: sum.splits if_splits)

text \<open>C7 (amended) at \<open>n = 2\<close>, for a float, a dict and a list.\<close>

theorem ps_length_witness:
  "convert_arg_to_ps 2 (Scalar (1/2)) = Inr [1/2, 1/2]
   \<and> int (length [1/2, 1/2 :: real]) = 2
   \<and> convert_arg_to_ps 2 (Mapping [(2, 1), (5, 1)]) = Inr [1/2, 1/5]
   \<and> convert_arg_to_ps 2 (Sequence [1/2, 1/5]) = Inr [1/2, 1/5]"
proof -
  have a: "convert_arg_to_ps 2 (Scalar (1/2)) = Inr [1/2, 1/2]"
    by (simp add: convert_arg_to_ps_def numeral_2_eq_2)
  have b: "convert_arg_to_ps 2 (Mapping [(2, 1), (5, 1)]) = Inr [1/2, 1/5]"
    by (simp add: convert_arg_to_ps_def)
  have c: "convert_arg_to_ps 2 (Sequence [1/2, 1/5]) = Inr [1/2, 1/5]"
    by (simp add: convert_arg_to_ps_def)
  have h: "0 \<le> (2::int) \<and> convert_arg_to_ps 2 (Scalar (1/2)) = Inr [1/2, 1/2]"
    using a by simp
  from ps_length [of 2, THEN conjunct1, rule_format, OF h]
  have "int (length [1/2, 1/2 :: real]) = 2" .
  with a b c show ?thesis by simp
qed

text \<open>
  C8.  The builder turns a float \<open>p\<close> into \<open>n\<close> copies of \<open>p\<close>, which is what it returns for
  the explicit list of \<open>n\<close> copies; so \<open>max_random_baseline(n, p, t)\<close> and
  \<open>max_random_baseline(n, [p]*n, t)\<close> agree, for every constructor of the model.
\<close>

theorem scalar_is_replicated_sequence:
  "convert_arg_to_ps n (Scalar p) = Inr (replicate (nat n) p)
   \<and> convert_arg_to_ps n (Scalar p) = convert_arg_to_ps n (Sequence (replicate (nat n) p))
   \<and> max_random_baseline PoiBin n (Scalar p) t
       = max_random_baseline PoiBin n (Sequence (replicate (nat n) p)) t"
  by (simp add: max_random_baseline_def init_def convert_arg_to_ps_def)

text \<open>C8 at \<open>n = 2\<close>, \<open>p = 1/2\<close>, \<open>t = 2\<close>: both calls return \<open>11/16\<close>.\<close>

theorem scalar_is_replicated_sequence_witness:
  "max_random_baseline exact_PoiBin 2 (Scalar (1/2)) 2 = Inr (11/16)
   \<and> max_random_baseline exact_PoiBin 2 (Sequence [1/2, 1/2]) 2 = Inr (11/16)"
  using scalar_is_replicated_sequence [of 2 "1/2" exact_PoiBin 2] two_coins_baseline
  by (simp add: numeral_2_eq_2)

text \<open>
  C9.  For a dict, a returned \<open>ps\<close> is the concatenation, entry by entry, of
  \<open>num_examples\<close> copies of \<open>1/num_labels\<close>, and has length \<open>n\<close>.  When no key is \<open>0\<close>,
  the builder returns exactly that list if its length is \<open>n\<close> and fails the assertion
  otherwise; so with counts that are not negative and do not sum to \<open>n\<close>, the builder
  and the construction of the engine fail with \<open>AssertionError\<close>.
\<close>

theorem mapping_builder:
  "(\<forall>ps. convert_arg_to_ps n (Mapping m) = Inr ps \<longrightarrow>
        ps = concat (map (\<lambda>(num_labels, num_examples).
                       replicate (nat num_examples) (1 / of_int num_labels)) m)
        \<and> int (length ps) = n)
   \<and> ((\<forall>(num_labels, num_examples) \<in> set m. num_labels \<noteq> 0) \<longrightarrow>
        convert_arg_to_ps n (Mapping m) =
          (let ps = concat (map (\<lambda>(num_labels, num_examples).
                       replicate (nat num_examples) (1 / of_int num_labels)) m)
           in if int (length ps) = n then Inr ps else Inl AssertionError))
   \<and> ((\<forall>(num_labels, num_examples) \<in> set m. num_labels \<noteq> 0 \<and> 0 \<le> num_examples)
        \<and> (\<Sum>(num_labels, num_examples)\<leftarrow>m. num_examples) \<noteq> n \<longrightarrow>
        convert_arg_to_ps n (Mapping m) = Inl AssertionError
        \<and> init PoiBin n (Mapping m) = Inl AssertionError)"
proof (intro conjI allI impI)
  fix ps
  assume a: "convert_arg_to_ps n (Mapping m) = Inr ps"
  then have "mapping_ps m = Inr ps"
    by (auto simp: convert_arg_to_ps_def split: sum.splits if_splits)
  then show "ps = concat (map (\<lambda>(num_labels, num_examples).
                       replicate (nat num_examples) (1 / of_int num_labels)) m)"
    by (rule mapping_ps_Inr)
  from a show "int (length ps) = n"
    by (auto simp: convert_arg_to_ps_def split: sum.splits if_splits)
next
  assume "\<forall>(num_labels, num_examples) \<in> set m. num_labels \<noteq> 0"
  then show "convert_arg_to_ps n (Mapping m) =
          (let ps = concat (map (\<lambda>(num_labels, num_examples).
                       replicate (nat num_examples) (1 / of_int num_labels)) m)
           in if int (length ps) = n then Inr ps else Inl AssertionError)"
    by (simp add: convert_arg_to_ps_def mapping_ps_nonzero Let_def)
next
  assume a: "(\<forall>(num_labels, num_examples) \<in> set m. num_labels \<noteq> 0 \<and> 0 \<le> num_examples)
        \<and> (\<Sum>(num_labels, num_examples)\<leftarrow>m. num_examples) \<noteq> n"
  then have nz: "\<forall>(num_labels, num_examples) \<in> set m. num_labels \<noteq> 0"
    and nn: "\<forall>(num_labels, num_examples) \<in> set m. 0 \<le> num_examples"
    and ne: "(\<Sum>(num_labels, num_examples)\<leftarrow>m. num_examples) \<noteq> n"
    by auto
  show c: "convert_arg_to_ps n (Mapping m) = Inl AssertionError"
    using ne by (simp add: convert_arg_to_ps_def mapping_ps_nonzero [OF nz] length_produced [OF nn])
  show "init PoiBin n (Mapping m) = Inl AssertionError"
    by (simp add: init_def c)
qed

text \<open>C9 on the dict \<open>{2: 2, 5: 1}\<close>, with \<open>n = 3\<close> and with \<open>n = 4\<close>.\<close>

theorem mapping_builder_witness:
  "convert_arg_to_ps 3 (Mapping [(2, 2), (5, 1)]) = Inr [1/2, 1/2, 1/5]
   \<and> convert_arg_to_ps 4 (Mapping [(2, 2), (5, 1)]) = Inl AssertionError
   \<and> init exact_PoiBin 4 (Mapping [(2, 2), (5, 1)]) = Inl AssertionError"
proof -
  have nz: "\<forall>(num_labels, num_examples) \<in> set [(2, 2), (5, 1 :: int)]. num_labels \<noteq> (0::int)"
    by simp
  have nn: "(\<forall>(num_labels, num_examples) \<in> set [(2, 2), (5, 1 :: int)].
               num_labels \<noteq> (0::int) \<and> 0 \<le> num_examples)
            \<and> (\<Sum>(num_labels, num_examples)\<leftarrow>[(2, 2), (5, 1 :: int)]. num_examples) \<noteq> (4::int)"
    by simp
  have produced: "concat (map (\<lambda>(num_labels, num_examples).
                       replicate (nat num_examples) (1 / of_int num_labels)) [(2, 2), (5, 1)])
      = [1/2, 1/2, 1/5 :: real]"
    by (simp add: numeral_2_eq_2)
  from mapping_builder [of 3 "[(2, 2), (5, 1)]" exact_PoiBin,
      THEN conjunct2, THEN conjunct1, THEN mp, OF nz]
  have a: "convert_arg_to_ps 3 (Mapping [(2, 2), (5, 1)]) = Inr [1/2, 1/2, 1/5]"
    unfolding produced Let_def by simp
  from mapping_builder [of 4 "[(2, 2), (5, 1)]" exact_PoiBin,
      THEN conjunct2, THEN conjunct2, THEN mp, OF nn]
  have "convert_arg_to_ps 4 (Mapping [(2, 2), (5, 1)]) = Inl AssertionError
   \<and> init exact_PoiBin 4 (Mapping [(2, 2), (5, 1)]) = Inl AssertionError" .
  with a show ?thesis by simp
qed


section \<open>No classifier at all\<close>

text \<open>
  C10.  With \<open>t = 0\<close>: \<open>pmf(k, 0) = 0\<close> wherever the model returns at \<open>floor(k)\<close>;
  \<open>F(k, 0) = 1\<close> for \<open>floor(k) \<ge> 0\<close> where the model's \<open>cdf\<close> returns; and when the model
  returns on \<open>0..n\<close>, \<open>expectation(0) = 0\<close> and, for \<open>n \<noteq> 0\<close>,
  \<open>max_random_baseline(0) = 0\<close>.
\<close>

theorem zero_classifiers:
  "(\<forall>k. \<not> isl (pb_cdf (self_pb self) \<lfloor>k\<rfloor>) \<and> \<not> isl (pb_pmf (self_pb self) \<lfloor>k\<rfloor>)
        \<longrightarrow> pmf self k 0 = Inr 0)
   \<and> (\<forall>k. 0 \<le> \<lfloor>k\<rfloor> \<and> \<not> isl (pb_cdf (self_pb self) \<lfloor>k\<rfloor>) \<longrightarrow> F self k 0 = Inr 1)
   \<and> ((\<forall>j\<in>{0..self_n self}. \<not> isl (pb_cdf (self_pb self) j) \<and> \<not> isl (pb_pmf (self_pb self) j))
        \<longrightarrow> expectation self 0 = Inr 0
          \<and> (self_n self \<noteq> 0 \<longrightarrow> baseline self 0 = Inr 0))"
proof (intro conjI allI impI)
  fix k :: real
  assume "\<not> isl (pb_cdf (self_pb self) \<lfloor>k\<rfloor>) \<and> \<not> isl (pb_pmf (self_pb self) \<lfloor>k\<rfloor>)"
  then show "pmf self k 0 = Inr 0"
    by (auto simp: pmf_def Let_def split: sum.splits)
next
  fix k :: real
  assume "0 \<le> \<lfloor>k\<rfloor> \<and> \<not> isl (pb_cdf (self_pb self) \<lfloor>k\<rfloor>)"
  then show "F self k 0 = Inr 1"
    by (auto simp: F_def Let_def split: sum.splits)
next
  assume a: "\<forall>j\<in>{0..self_n self}.
     \<not> isl (pb_cdf (self_pb self) j) \<and> \<not> isl (pb_pmf (self_pb self) j)"
  have "\<forall>j\<in>set [0..self_n self]. pmf self (of_int j) 0 = Inr ((\<lambda>_. 0) j)"
    using a by (auto simp: pmf_def Let_def split: sum.splits)
  from expectation_loop_sum [OF this, of 0]
  have "expectation_loop self 0 [0..self_n self] 0 = Inr 0" by simp
  then show e: "expectation self 0 = Inr 0" by (simp add: expectation_def)
  assume "self_n self \<noteq> 0"
  then show "baseline self 0 = Inr 0" using e by (simp add: baseline_def)
qed

text \<open>C10 on two fair coins.\<close>

theorem zero_classifiers_witness:
  "pmf two_coins_engine (3/2) 0 = Inr 0
   \<and> F two_coins_engine (3/2) 0 = Inr 1
   \<and> expectation two_coins_engine 0 = Inr 0
   \<and> baseline two_coins_engine 0 = Inr 0"
proof -
  have f2: "\<lfloor>3/2 :: real\<rfloor> = 1" by linarith
  have a: "\<not> isl (pb_cdf (self_pb two_coins_engine) \<lfloor>3/2::real\<rfloor>)
         \<and> \<not> isl (pb_pmf (self_pb two_coins_engine) \<lfloor>3/2::real\<rfloor>)"
    by (simp add: f2 two_coins_cdf two_coins_pmf)
  have b: "0 \<le> \<lfloor>3/2::real\<rfloor> \<and> \<not> isl (pb_cdf (self_pb two_coins_engine) \<lfloor>3/2::real\<rfloor>)"
    by (simp add: f2 two_coins_cdf)
  have c: "\<forall>j\<in>{0..self_n two_coins_engine}.
     \<not> isl (pb_cdf (self_pb two_coins_engine) j) \<and> \<not> isl (pb_pmf (self_pb two_coins_engine) j)"
    by (simp add: two_coins_n two_coins_cdf two_coins_pmf)
  have d: "self_n two_coins_engine \<noteq> 0" by (simp add: two_coins_n)
  from zero_classifiers [of two_coins_engine] a b c d show ?thesis by blast
qed

end
